theory Spec2Isabelle
  imports Main
begin

section \<open>C++ integral types and their arithmetic\<close>

text \<open>
  SnugInt is a class template over an integral type \<open>Type\<close>. An integral type is described
  by its signedness and its width; a value of the type is the mathematical integer it
  denotes, always inside the range of the type. \<open>std::numeric_limits<Type>::min()\<close> and
  \<open>max()\<close> are \<open>tmin\<close> and \<open>tmax\<close>.
\<close>

record ctype =
  is_signed :: bool
  bits :: nat

definition wf_ctype :: "ctype \<Rightarrow> bool" where
  "wf_ctype T = (8 \<le> bits T)"

definition tmin :: "ctype \<Rightarrow> int" where
  "tmin T = (if is_signed T then - (2 ^ (bits T - 1)) else 0)"

definition tmax :: "ctype \<Rightarrow> int" where
  "tmax T = (if is_signed T then 2 ^ (bits T - 1) - 1 else 2 ^ bits T - 1)"

definition in_range :: "ctype \<Rightarrow> int \<Rightarrow> bool" where
  "in_range T x = (tmin T \<le> x \<and> x \<le> tmax T)"

text \<open>The width of \<open>int\<close>: 32 bits on the platforms the library is built for.\<close>

definition int_bits :: nat where
  "int_bits = 32"

definition c_int :: ctype where
  "c_int = \<lparr>is_signed = True, bits = int_bits\<rparr>"

definition c_uint :: ctype where
  "c_uint = \<lparr>is_signed = False, bits = int_bits\<rparr>"

definition c_int8 :: ctype where
  "c_int8 = \<lparr>is_signed = True, bits = 8\<rparr>"

definition c_uint8 :: ctype where
  "c_uint8 = \<lparr>is_signed = False, bits = 8\<rparr>"

text \<open>
  Integral promotion: an operand of a type narrower than \<open>int\<close> is converted to \<open>int\<close>
  before any arithmetic or comparison.
\<close>

definition promote :: "ctype \<Rightarrow> ctype" where
  "promote T = (if bits T < int_bits then c_int else T)"

text \<open>
  The usual arithmetic conversions of a binary operator: both operands are promoted; with
  equal signedness the wider type wins; with mixed signedness the unsigned type wins unless
  the signed type is strictly wider.
\<close>

definition common_type :: "ctype \<Rightarrow> ctype \<Rightarrow> ctype" where
  "common_type A B =
     (let A' = promote A; B' = promote B in
      if is_signed A' = is_signed B' then (if bits B' \<le> bits A' then A' else B')
      else
        (let U = (if is_signed A' then B' else A');
             S = (if is_signed A' then A' else B')
         in if bits S \<le> bits U then U else S))"

text \<open>
  Conversion of an integer to a type: the value modulo \<open>2 ^ bits\<close>, read as unsigned or as
  two's complement.
\<close>

definition convert :: "ctype \<Rightarrow> int \<Rightarrow> int" where
  "convert T x =
     (if is_signed T then (x + 2 ^ (bits T - 1)) mod 2 ^ bits T - 2 ^ (bits T - 1)
      else x mod 2 ^ bits T)"

text \<open>A comparison \<open>a < b\<close> of an \<open>A\<close> with a \<open>B\<close> is made in their common type.\<close>

definition c_less :: "ctype \<Rightarrow> int \<Rightarrow> ctype \<Rightarrow> int \<Rightarrow> bool" where
  "c_less A a B b = (let C = common_type A B in convert C a < convert C b)"

text \<open>
  The three ways a C++ expression or call can end: with a value, with one of the eight
  exceptions of SnugInt.h, or in undefined behaviour (signed overflow, division by zero).
\<close>

datatype snugint_exception =
    snugint_add_overflow
  | snugint_add_underflow
  | snugint_sub_overflow
  | snugint_sub_underflow
  | snugint_mult_overflow
  | snugint_mult_underflow
  | snugint_size_mismatch
  | snugint_type_mismatch

datatype 'a outcome =
    is_Returned: Returned 'a
  | is_Threw: Threw snugint_exception
  | is_Undefined: Undefined

fun and_then :: "'a outcome \<Rightarrow> ('a \<Rightarrow> 'b outcome) \<Rightarrow> 'b outcome" where
  "and_then (Returned x) f = f x"
| "and_then (Threw e) f = Threw e"
| "and_then Undefined f = Undefined"

text \<open>
  The result of an arithmetic operator in the (promoted) type \<open>P\<close> whose mathematical
  result is \<open>r\<close>: unsigned arithmetic wraps around, signed overflow is undefined.
\<close>

definition arith_result :: "ctype \<Rightarrow> int \<Rightarrow> int outcome" where
  "arith_result P r =
     (if is_signed P then (if in_range P r then Returned r else Undefined)
      else Returned (r mod 2 ^ bits P))"

definition c_add :: "ctype \<Rightarrow> int \<Rightarrow> int \<Rightarrow> int outcome" where
  "c_add P a b = arith_result P (a + b)"

definition c_sub :: "ctype \<Rightarrow> int \<Rightarrow> int \<Rightarrow> int outcome" where
  "c_sub P a b = arith_result P (a - b)"

definition c_mul :: "ctype \<Rightarrow> int \<Rightarrow> int \<Rightarrow> int outcome" where
  "c_mul P a b = arith_result P (a * b)"

text \<open>C++ division truncates towards zero; HOL's \<open>div\<close> rounds down.\<close>

definition tdiv :: "int \<Rightarrow> int \<Rightarrow> int" where
  "tdiv a b = sgn a * sgn b * (\<bar>a\<bar> div \<bar>b\<bar>)"

definition c_div :: "ctype \<Rightarrow> int \<Rightarrow> int \<Rightarrow> int outcome" where
  "c_div P a b = (if b = 0 then Undefined else arith_result P (tdiv a b))"

text \<open>
  The unqualified call \<open>abs(x)\<close>: SnugInt.h includes only \<open><exception>\<close>, \<open><iostream>\<close> and
  \<open><limits>\<close>, so the call is to \<open>::abs(int)\<close> of the C library. The argument is converted to
  \<open>int\<close> (an operand wider than \<open>int\<close> is truncated), the result is an \<open>int\<close>, and \<open>abs\<close> of
  the least \<open>int\<close> is undefined.
\<close>

definition c_abs :: "int \<Rightarrow> int outcome" where
  "c_abs a = arith_result c_int \<bar>convert c_int a\<bar>"

section \<open>The class SnugInt\<close>

text \<open>The three private members of \<open>SnugInt<Type>\<close>: \<open>value\<close>, \<open>max\<close> and \<open>min\<close>.\<close>

record snugint =
  value_m :: int
  max_m :: int
  min_m :: int

subsection \<open>Constructors\<close>

definition SnugInt_default :: "ctype \<Rightarrow> snugint outcome" where
  "SnugInt_default Type =
     (let mn = tmin Type; mx = tmax Type in
      if mn = mx then Threw snugint_type_mismatch
      else Returned \<lparr>value_m = 0, max_m = mx, min_m = mn\<rparr>)"

definition SnugInt_copy :: "snugint \<Rightarrow> snugint outcome" where
  "SnugInt_copy other =
     (let mx = max_m other; mn = min_m other in
      if mn = mx then Threw snugint_type_mismatch
      else Returned \<lparr>value_m = value_m other, max_m = mx, min_m = mn\<rparr>)"

text \<open>
  The converting constructor \<open>SnugInt<Type>::SnugInt(const T &item)\<close>. The guard
  \<open>item > max || item < min\<close> compares a \<open>T\<close> with a \<open>Type\<close>; \<open>value = item\<close> converts the item
  to \<open>Type\<close>.
\<close>

definition SnugInt_from :: "ctype \<Rightarrow> ctype \<Rightarrow> int \<Rightarrow> snugint outcome" where
  "SnugInt_from Type T item =
     (let mn = tmin Type; mx = tmax Type in
      if mn = mx then Threw snugint_type_mismatch
      else if c_less Type mx T item \<or> c_less T item Type mn then Threw snugint_size_mismatch
      else Returned \<lparr>value_m = convert Type item, max_m = mx, min_m = mn\<rparr>)"

subsection \<open>The checked operations\<close>

text \<open>
  Each of SafeAdd, SafeSub and SafeMult first runs its precondition checks, which either
  throw or fall through, and then constructs the result from the plain C++ expression,
  whose type is the promoted \<open>Type\<close>.
\<close>

definition SafeAdd_check :: "ctype \<Rightarrow> snugint \<Rightarrow> snugint \<Rightarrow> unit outcome" where
  "SafeAdd_check Type left right =
     (let P = promote Type in
      if c_less c_int 0 Type (value_m left) \<and> c_less c_int 0 Type (value_m right) then
        and_then (c_sub P (max_m left) (value_m left)) (\<lambda>d.
          if c_less P d Type (value_m right) then Threw snugint_add_overflow
          else Returned ())
      else if c_less Type (value_m left) c_int 0 \<and> c_less Type (value_m right) c_int 0 then
        and_then (c_sub P (min_m left) (value_m left)) (\<lambda>d.
          if c_less Type (value_m right) P d then Threw snugint_add_underflow
          else Returned ())
      else Returned ())"

definition SafeAdd :: "ctype \<Rightarrow> snugint \<Rightarrow> snugint \<Rightarrow> snugint outcome" where
  "SafeAdd Type left right =
     and_then (SafeAdd_check Type left right) (\<lambda>_.
       and_then (c_add (promote Type) (value_m left) (value_m right))
         (SnugInt_from Type (promote Type)))"

definition SafeSub_check :: "ctype \<Rightarrow> snugint \<Rightarrow> snugint \<Rightarrow> unit outcome" where
  "SafeSub_check Type left right =
     (let P = promote Type in
      if c_less c_int 0 Type (value_m left) \<and> c_less Type (value_m right) c_int 0 then
        and_then (c_sub P (max_m left) (value_m left)) (\<lambda>d.
        and_then (c_abs (value_m right)) (\<lambda>a.
          if c_less P d c_int a then Threw snugint_sub_overflow
          else Returned ()))
      else if c_less Type (value_m left) c_int 0 \<and> c_less c_int 0 Type (value_m right) then
        and_then (c_sub P (min_m left) (value_m left)) (\<lambda>d.
        and_then (c_abs d) (\<lambda>a.
          if c_less c_int a Type (value_m right) then Threw snugint_sub_underflow
          else Returned ()))
      else Returned ())"

definition SafeSub :: "ctype \<Rightarrow> snugint \<Rightarrow> snugint \<Rightarrow> snugint outcome" where
  "SafeSub Type left right =
     and_then (SafeSub_check Type left right) (\<lambda>_.
       and_then (c_sub (promote Type) (value_m left) (value_m right))
         (SnugInt_from Type (promote Type)))"

text \<open>
  In the last quadrant \<open>left.value != 0 && ...\<close> short-circuits: the division by
  \<open>left.value\<close> is evaluated only when \<open>left.value\<close> is not zero.
\<close>

definition SafeMult_check :: "ctype \<Rightarrow> snugint \<Rightarrow> snugint \<Rightarrow> unit outcome" where
  "SafeMult_check Type left right =
     (let P = promote Type in
      if c_less c_int 0 Type (value_m left) then
        (if c_less c_int 0 Type (value_m right) then
           and_then (c_div P (max_m left) (value_m right)) (\<lambda>q.
             if c_less P q Type (value_m left) then Threw snugint_mult_overflow
             else Returned ())
         else
           and_then (c_div P (min_m left) (value_m left)) (\<lambda>q.
             if c_less Type (value_m right) P q then Threw snugint_mult_underflow
             else Returned ()))
      else
        (if c_less c_int 0 Type (value_m right) then
           and_then (c_div P (min_m left) (value_m right)) (\<lambda>q.
             if c_less Type (value_m left) P q then Threw snugint_mult_underflow
             else Returned ())
         else if value_m left \<noteq> 0 then
           and_then (c_div P (max_m left) (value_m left)) (\<lambda>q.
             if c_less Type (value_m right) P q then Threw snugint_mult_overflow
             else Returned ())
         else Returned ()))"

definition SafeMult :: "ctype \<Rightarrow> snugint \<Rightarrow> snugint \<Rightarrow> snugint outcome" where
  "SafeMult Type left right =
     and_then (SafeMult_check Type left right) (\<lambda>_.
       and_then (c_mul (promote Type) (value_m left) (value_m right))
         (SnugInt_from Type (promote Type)))"

text \<open>SafeDiv has no check of its own: it divides and constructs the result.\<close>

definition SafeDiv :: "ctype \<Rightarrow> snugint \<Rightarrow> snugint \<Rightarrow> snugint outcome" where
  "SafeDiv Type left right =
     and_then (c_div (promote Type) (value_m left) (value_m right))
       (SnugInt_from Type (promote Type))"

subsection \<open>Binary operators\<close>

text \<open>
  \<open>operator-\<close> in its three shapes; the raw operand has the type \<open>Type\<close> itself and goes
  through the converting constructor. The operators \<open>+\<close>, \<open>*\<close> and \<open>/\<close> are the same around
  SafeAdd, SafeMult and SafeDiv.
\<close>

definition operator_minus :: "ctype \<Rightarrow> snugint \<Rightarrow> snugint \<Rightarrow> snugint outcome" where
  "operator_minus Type left right = SafeSub Type left right"

definition operator_minus_raw_right :: "ctype \<Rightarrow> snugint \<Rightarrow> int \<Rightarrow> snugint outcome" where
  "operator_minus_raw_right Type left right =
     and_then (SnugInt_from Type Type right) (\<lambda>temp. SafeSub Type left temp)"

definition operator_minus_raw_left :: "ctype \<Rightarrow> int \<Rightarrow> snugint \<Rightarrow> snugint outcome" where
  "operator_minus_raw_left Type left right =
     and_then (SnugInt_from Type Type left) (\<lambda>temp. SafeSub Type temp right)"

subsection \<open>Member functions that change the object\<close>

text \<open>
  A member function that mutates \<open>*this\<close> yields its outcome together with the state of the
  object afterwards. An exception thrown before the mutation leaves the object as it was.
\<close>

fun on_result :: "'a outcome \<Rightarrow> snugint \<Rightarrow> ('a \<Rightarrow> 'b outcome \<times> snugint) \<Rightarrow> 'b outcome \<times> snugint" where
  "on_result (Returned x) this f = f x"
| "on_result (Threw e) this f = (Threw e, this)"
| "on_result Undefined this f = (Undefined, this)"

definition assign :: "snugint \<Rightarrow> snugint \<Rightarrow> snugint" where
  "assign this other =
     this\<lparr>value_m := value_m other, max_m := max_m other, min_m := min_m other\<rparr>"

text \<open>\<open>operator=(const Type &other)\<close>: the argument is a value of \<open>Type\<close>; nothing is checked.\<close>

definition assign_raw :: "snugint \<Rightarrow> int \<Rightarrow> snugint" where
  "assign_raw this other = this\<lparr>value_m := other\<rparr>"

text \<open>
  \<open>operator+=\<close>: \<open>value = this->SafeAdd(value, other).getValue()\<close>, where the first argument
  \<open>value\<close> becomes a temporary through the converting constructor.
\<close>

definition add_assign :: "ctype \<Rightarrow> snugint \<Rightarrow> snugint \<Rightarrow> snugint outcome \<times> snugint" where
  "add_assign Type this other =
     on_result (SnugInt_from Type Type (value_m this)) this (\<lambda>temp.
     on_result (SafeAdd Type temp other) this (\<lambda>r.
       let this' = this\<lparr>value_m := value_m r\<rparr> in (Returned this', this')))"

definition add_assign_raw :: "ctype \<Rightarrow> snugint \<Rightarrow> int \<Rightarrow> snugint outcome \<times> snugint" where
  "add_assign_raw Type this other =
     on_result (SnugInt_from Type Type other) this (\<lambda>temp.
     on_result (SnugInt_from Type Type (value_m this)) this (\<lambda>temp2.
     on_result (SafeAdd Type temp2 temp) this (\<lambda>r.
       let this' = this\<lparr>value_m := value_m r\<rparr> in (Returned this', this'))))"

text \<open>\<open>value++\<close> and \<open>value--\<close>: computed in the promoted type and stored back in \<open>Type\<close>.\<close>

definition c_incr :: "ctype \<Rightarrow> int \<Rightarrow> int outcome" where
  "c_incr Type v = and_then (c_add (promote Type) v 1) (\<lambda>r. Returned (convert Type r))"

definition c_decr :: "ctype \<Rightarrow> int \<Rightarrow> int outcome" where
  "c_decr Type v = and_then (c_sub (promote Type) v 1) (\<lambda>r. Returned (convert Type r))"

definition pre_increment :: "ctype \<Rightarrow> snugint \<Rightarrow> snugint outcome \<times> snugint" where
  "pre_increment Type this =
     (if value_m this = max_m this then (Threw snugint_add_overflow, this)
      else on_result (c_incr Type (value_m this)) this (\<lambda>v.
        let this' = this\<lparr>value_m := v\<rparr> in (Returned this', this')))"

definition post_increment :: "ctype \<Rightarrow> snugint \<Rightarrow> snugint outcome \<times> snugint" where
  "post_increment Type this =
     (if value_m this = max_m this then (Threw snugint_add_overflow, this)
      else on_result (SnugInt_copy this) this (\<lambda>temp.
        case pre_increment Type this of
          (r, this') \<Rightarrow> (and_then r (\<lambda>_. Returned temp), this')))"

definition pre_decrement :: "ctype \<Rightarrow> snugint \<Rightarrow> snugint outcome \<times> snugint" where
  "pre_decrement Type this =
     (if value_m this = min_m this then (Threw snugint_sub_underflow, this)
      else on_result (c_decr Type (value_m this)) this (\<lambda>v.
        let this' = this\<lparr>value_m := v\<rparr> in (Returned this', this')))"

definition post_decrement :: "ctype \<Rightarrow> snugint \<Rightarrow> snugint outcome \<times> snugint" where
  "post_decrement Type this =
     (if value_m this = min_m this then (Threw snugint_sub_underflow, this)
      else on_result (SnugInt_copy this) this (\<lambda>temp.
        case pre_decrement Type this of
          (r, this') \<Rightarrow> (and_then r (\<lambda>_. Returned temp), this')))"

section \<open>Instances\<close>

text \<open>
  An instance of \<open>SnugInt<Type>\<close>: its bounds are the limits of \<open>Type\<close> and its value is a
  value of \<open>Type\<close>.
\<close>

definition instance_of :: "ctype \<Rightarrow> snugint \<Rightarrow> bool" where
  "instance_of Type s =
     (max_m s = tmax Type \<and> min_m s = tmin Type \<and> in_range Type (value_m s))"

definition make :: "ctype \<Rightarrow> int \<Rightarrow> snugint" where
  "make Type v = \<lparr>value_m = v, max_m = tmax Type, min_m = tmin Type\<rparr>"

text \<open>
  The instances a program can hold: whatever a constructor, an assignment, a checked
  operation, an increment or a decrement yields when it returns. A raw operand of
  \<open>operator=(const Type &)\<close> or of \<open>operator+=(const Type &)\<close> is a value of \<open>Type\<close>.
\<close>

inductive live :: "ctype \<Rightarrow> snugint \<Rightarrow> bool" for Type :: ctype where
  live_default: "SnugInt_default Type = Returned s \<Longrightarrow> live Type s"
| live_copy: "live Type a \<Longrightarrow> SnugInt_copy a = Returned s \<Longrightarrow> live Type s"
| live_from: "wf_ctype T \<Longrightarrow> in_range T item \<Longrightarrow> SnugInt_from Type T item = Returned s \<Longrightarrow> live Type s"
| live_assign: "live Type a \<Longrightarrow> live Type b \<Longrightarrow> live Type (assign a b)"
| live_assign_raw: "live Type a \<Longrightarrow> in_range Type x \<Longrightarrow> live Type (assign_raw a x)"
| live_add_assign:
    "live Type a \<Longrightarrow> live Type b \<Longrightarrow> add_assign Type a b = (Returned r, s) \<Longrightarrow> live Type s"
| live_add_assign_raw:
    "live Type a \<Longrightarrow> in_range Type x \<Longrightarrow> add_assign_raw Type a x = (Returned r, s) \<Longrightarrow> live Type s"
| live_SafeAdd: "live Type a \<Longrightarrow> live Type b \<Longrightarrow> SafeAdd Type a b = Returned s \<Longrightarrow> live Type s"
| live_SafeSub: "live Type a \<Longrightarrow> live Type b \<Longrightarrow> SafeSub Type a b = Returned s \<Longrightarrow> live Type s"
| live_SafeMult: "live Type a \<Longrightarrow> live Type b \<Longrightarrow> SafeMult Type a b = Returned s \<Longrightarrow> live Type s"
| live_SafeDiv: "live Type a \<Longrightarrow> live Type b \<Longrightarrow> SafeDiv Type a b = Returned s \<Longrightarrow> live Type s"
| live_pre_increment: "live Type a \<Longrightarrow> pre_increment Type a = (Returned r, s) \<Longrightarrow> live Type s"
| live_post_increment: "live Type a \<Longrightarrow> post_increment Type a = (Returned r, s) \<Longrightarrow> live Type s"
| live_post_increment_result:
    "live Type a \<Longrightarrow> post_increment Type a = (Returned r, s) \<Longrightarrow> live Type r"
| live_pre_decrement: "live Type a \<Longrightarrow> pre_decrement Type a = (Returned r, s) \<Longrightarrow> live Type s"
| live_post_decrement: "live Type a \<Longrightarrow> post_decrement Type a = (Returned r, s) \<Longrightarrow> live Type s"
| live_post_decrement_result:
    "live Type a \<Longrightarrow> post_decrement Type a = (Returned r, s) \<Longrightarrow> live Type r"

section \<open>Ranges, promotions and comparisons\<close>

lemma pow2_split: "0 < n \<Longrightarrow> (2::int) ^ n = 2 * 2 ^ (n - 1)"
  by (cases n) simp_all

lemma pow2_ge_128: "8 \<le> n \<Longrightarrow> (128::int) \<le> 2 ^ (n - 1)"
proof -
  assume "8 \<le> n"
  then have "(2::int) ^ 7 \<le> 2 ^ (n - 1)" by (intro power_increasing) auto
  then show ?thesis by simp
qed

lemma tmin_signed: "is_signed T \<Longrightarrow> tmin T = - tmax T - 1"
  by (simp add: tmin_def tmax_def)

lemma tmax_ge_127: "wf_ctype T \<Longrightarrow> 127 \<le> tmax T"
  using pow2_ge_128 [of "bits T"] pow2_split [of "bits T"]
  by (auto simp: wf_ctype_def tmax_def)

lemma tmin_le_0: "tmin T \<le> 0"
  by (simp add: tmin_def)

lemma tmin_less_tmax: "wf_ctype T \<Longrightarrow> tmin T < tmax T"
  using tmax_ge_127 [of T] tmin_le_0 [of T] by simp

lemma in_range_zero: "in_range T 0"
  using tmin_le_0 [of T] by (auto simp: in_range_def tmax_def)

lemma convert_id: "wf_ctype T \<Longrightarrow> in_range T x \<Longrightarrow> convert T x = x"
  using pow2_split [of "bits T"]
  by (auto simp: convert_def in_range_def tmin_def tmax_def wf_ctype_def)

lemma convert_in_range: "wf_ctype T \<Longrightarrow> in_range T (convert T x)"
proof -
  assume "wf_ctype T"
  then have p: "(2::int) ^ bits T = 2 * 2 ^ (bits T - 1)"
    by (intro pow2_split) (simp add: wf_ctype_def)
  have "0 \<le> (x + 2 ^ (bits T - 1)) mod 2 ^ bits T"
    and "(x + 2 ^ (bits T - 1)) mod 2 ^ bits T < (2::int) ^ bits T"
    and "0 \<le> x mod 2 ^ bits T" and "x mod 2 ^ bits T < (2::int) ^ bits T"
    by simp_all
  with p show ?thesis
    by (auto simp: convert_def in_range_def tmin_def tmax_def)
qed

lemma arith_result_in_range: "in_range P r \<Longrightarrow> arith_result P r = Returned r"
  by (auto simp: arith_result_def in_range_def tmin_def tmax_def)

lemma wf_c_int: "wf_ctype c_int"
  by (simp add: wf_ctype_def c_int_def int_bits_def)

lemma wf_promote: "wf_ctype T \<Longrightarrow> wf_ctype (promote T)"
  by (simp add: promote_def wf_c_int)

lemma promote_idem: "promote (promote T) = promote T"
  by (simp add: promote_def c_int_def)

lemma in_range_promote: "in_range T x \<Longrightarrow> in_range (promote T) x"
proof (cases "bits T < int_bits")
  case False
  assume "in_range T x"
  with False show ?thesis by (simp add: promote_def)
next
  case True
  assume r: "in_range T x"
  from True have "bits T \<le> 31" and "bits T - 1 \<le> 31" by (simp_all add: int_bits_def)
  then have "(2::int) ^ bits T \<le> 2 ^ 31" and "(2::int) ^ (bits T - 1) \<le> 2 ^ 31"
    by (intro power_increasing; simp)+
  with r True show ?thesis
    by (auto simp: promote_def in_range_def tmin_def tmax_def c_int_def int_bits_def split: if_splits)
qed

lemma in_range_widen:
  assumes "is_signed A = is_signed B" and "bits A \<le> bits B" and "in_range A x"
  shows "in_range B x"
proof -
  from assms(2) have p: "(2::int) ^ bits A \<le> 2 ^ bits B"
    and q: "(2::int) ^ (bits A - 1) \<le> 2 ^ (bits B - 1)"
    by (intro power_increasing; simp)+
  show ?thesis
  proof (cases "is_signed A")
    case True
    with assms(3) have "- (2 ^ (bits A - 1)) \<le> x" and "x \<le> 2 ^ (bits A - 1) - 1"
      unfolding in_range_def tmin_def tmax_def by simp_all
    with q have "- (2 ^ (bits B - 1)) \<le> x \<and> x \<le> 2 ^ (bits B - 1) - 1" by linarith
    with True assms(1) show ?thesis unfolding in_range_def tmin_def tmax_def by simp
  next
    case False
    with assms(3) have "0 \<le> x" and "x \<le> 2 ^ bits A - 1"
      unfolding in_range_def tmin_def tmax_def by simp_all
    with p have "0 \<le> x \<and> x \<le> 2 ^ bits B - 1" by linarith
    with False assms(1) show ?thesis unfolding in_range_def tmin_def tmax_def by simp
  qed
qed

lemma common_type_promote: "promote A = promote B \<Longrightarrow> common_type A B = promote A"
  by (simp add: common_type_def Let_def)

lemma common_type_c_int_left: "common_type c_int T = promote T"
  by (auto simp: common_type_def Let_def promote_def c_int_def)

lemma common_type_c_int_right: "common_type T c_int = promote T"
  by (auto simp: common_type_def Let_def promote_def c_int_def)

lemma common_type_same_signedness:
  assumes "is_signed (promote A) = is_signed (promote B)"
  shows "wf_ctype A \<Longrightarrow> wf_ctype B \<Longrightarrow> wf_ctype (common_type A B)"
    and "in_range A x \<Longrightarrow> in_range (common_type A B) x"
    and "in_range B x \<Longrightarrow> in_range (common_type A B) x"
  using assms in_range_widen [of "promote A" "promote B" x] in_range_widen [of "promote B" "promote A" x]
    in_range_promote [of A x] in_range_promote [of B x]
  by (auto simp: common_type_def Let_def wf_promote)

lemma c_less_exact:
  "wf_ctype (common_type A B) \<Longrightarrow> in_range (common_type A B) a \<Longrightarrow>
   in_range (common_type A B) b \<Longrightarrow> c_less A a B b = (a < b)"
  by (simp add: c_less_def Let_def convert_id)

lemma c_less_zero_left: "wf_ctype T \<Longrightarrow> in_range T v \<Longrightarrow> c_less c_int 0 T v = (0 < v)"
  by (simp add: c_less_exact common_type_c_int_left wf_promote in_range_promote in_range_zero)

lemma c_less_zero_right: "wf_ctype T \<Longrightarrow> in_range T v \<Longrightarrow> c_less T v c_int 0 = (v < 0)"
  by (simp add: c_less_exact common_type_c_int_right wf_promote in_range_promote in_range_zero)

lemma c_less_promote_left:
  "wf_ctype T \<Longrightarrow> in_range (promote T) d \<Longrightarrow> in_range T v \<Longrightarrow> c_less (promote T) d T v = (d < v)"
  by (simp add: c_less_exact common_type_promote promote_idem wf_promote in_range_promote)

lemma c_less_promote_right:
  "wf_ctype T \<Longrightarrow> in_range (promote T) d \<Longrightarrow> in_range T v \<Longrightarrow> c_less T v (promote T) d = (v < d)"
  by (simp add: c_less_exact common_type_promote promote_idem wf_promote in_range_promote)

subsection \<open>Concrete types and instances\<close>

lemma value_m_make: "value_m (make T v) = v" and max_m_make: "max_m (make T v) = tmax T"
  and min_m_make: "min_m (make T v) = tmin T"
  by (simp_all add: make_def)

lemma instance_of_make: "in_range T v \<Longrightarrow> instance_of T (make T v)"
  by (simp add: instance_of_def make_def)

lemma wf_int8: "wf_ctype c_int8" and signed_int8: "is_signed c_int8"
  by (simp_all add: wf_ctype_def c_int8_def)

lemma wf_uint: "wf_ctype c_uint"
  by (simp add: wf_ctype_def c_uint_def int_bits_def)

lemma tmin_int8: "tmin c_int8 = - 128" and tmax_int8: "tmax c_int8 = 127"
  by (simp_all add: tmin_def tmax_def c_int8_def)

lemma in_range_int8: "in_range c_int8 v = (- 128 \<le> v \<and> v \<le> 127)"
  by (simp add: in_range_def tmin_def tmax_def c_int8_def)

lemma tmin_uint: "tmin c_uint = 0" and tmax_uint: "tmax c_uint = 4294967295"
  by (simp_all add: tmin_def tmax_def c_uint_def int_bits_def)

lemma in_range_uint: "in_range c_uint v = (0 \<le> v \<and> v \<le> 4294967295)"
  by (simp add: in_range_def tmin_uint tmax_uint)

subsection \<open>Sequencing\<close>

lemma and_then_Returned:
  "and_then m f = Returned s \<Longrightarrow> \<exists>x. m = Returned x \<and> f x = Returned s"
  by (cases m) simp_all

lemma on_result_Returned:
  "on_result m this f = (Returned r, s) \<Longrightarrow> \<exists>x. m = Returned x \<and> f x = (Returned r, s)"
  by (cases m) simp_all

subsection \<open>Truncating division\<close>

lemma int_div_less_iff:
  fixes a b x :: int
  assumes "0 < b"
  shows "(a div b < x) = (a < x * b)"
proof
  have m: "a = (a div b) * b + a mod b" by simp
  have r: "a mod b < b" using assms by simp
  assume "a div b < x"
  then have "a div b + 1 \<le> x" by simp
  then have "(a div b + 1) * b \<le> x * b" using assms by (intro mult_right_mono) simp_all
  moreover have "(a div b + 1) * b = (a div b) * b + b" by (simp add: algebra_simps)
  then have "a < (a div b + 1) * b" using m r by linarith
  ultimately show "a < x * b" by linarith
next
  have m: "a = (a div b) * b + a mod b" by simp
  have r: "0 \<le> a mod b" using assms by simp
  assume lt: "a < x * b"
  show "a div b < x"
  proof (rule ccontr)
    assume "\<not> a div b < x"
    then have "x \<le> a div b" by simp
    then have "x * b \<le> (a div b) * b" using assms by (intro mult_right_mono) simp_all
    with m r lt show False by linarith
  qed
qed

lemma tdiv_nonneg_pos: "0 \<le> a \<Longrightarrow> 0 < b \<Longrightarrow> tdiv a b = a div b"
  by (cases "a = 0") (simp_all add: tdiv_def)

lemma tdiv_nonpos_pos: "a \<le> 0 \<Longrightarrow> 0 < b \<Longrightarrow> tdiv a b = - ((- a) div b)"
  by (cases "a = 0") (simp_all add: tdiv_def)

lemma tdiv_nonneg_neg: "0 \<le> a \<Longrightarrow> b < 0 \<Longrightarrow> tdiv a b = - (a div (- b))"
  by (cases "a = 0") (simp_all add: tdiv_def)

lemma tdiv_nonpos_neg: "a \<le> 0 \<Longrightarrow> b < 0 \<Longrightarrow> tdiv a b = (- a) div (- b)"
  by (cases "a = 0") (simp_all add: tdiv_def)

lemma div_bounds: "0 \<le> a \<Longrightarrow> 0 < b \<Longrightarrow> 0 \<le> a div b \<and> a div b \<le> (a::int)"
  by (cases "a = 0") (simp_all add: pos_imp_zdiv_nonneg_iff int_div_le_self)

lemma quadrant_pp:
  "0 < a \<Longrightarrow> 0 < b \<Longrightarrow> 0 \<le> M \<Longrightarrow> (tdiv M b < a) = (M < a * b)"
  by (simp add: tdiv_nonneg_pos int_div_less_iff)

lemma quadrant_pn:
  assumes "0 < a" and "m \<le> 0"
  shows "(b < tdiv m a) = (a * b < m)"
proof -
  have "(b < tdiv m a) = ((- m) div a < - b)" using assms by (simp add: tdiv_nonpos_pos) linarith
  also have "\<dots> = (- m < (- b) * a)" using assms by (simp add: int_div_less_iff)
  also have "\<dots> = (a * b < m)" by (simp add: algebra_simps)
  finally show ?thesis .
qed

lemma quadrant_np:
  assumes "0 < b" and "m \<le> 0"
  shows "(a < tdiv m b) = (a * b < m)"
  using quadrant_pn [OF assms, of a] by (simp add: mult.commute)

lemma quadrant_nn:
  assumes "a < 0" and "0 \<le> M"
  shows "(b < tdiv M a) = (M < a * b)"
proof -
  have "(b < tdiv M a) = (M div (- a) < - b)" using assms by (simp add: tdiv_nonneg_neg) linarith
  also have "\<dots> = (M < (- b) * (- a))" using assms by (simp add: int_div_less_iff)
  also have "\<dots> = (M < a * b)" by (simp add: algebra_simps)
  finally show ?thesis .
qed

lemma tdiv_in_range:
  assumes T: "wf_ctype T" and ra: "in_range T a" and rb: "in_range T b"
    and nz: "b \<noteq> 0" and ne: "\<not> (a = tmin T \<and> b = - 1)"
  shows "in_range T (tdiv a b)"
proof -
  have M: "0 \<le> tmax T" using tmax_ge_127 [OF T] by simp
  have m: "tmin T \<le> 0" by (rule tmin_le_0)
  consider (pp) "0 \<le> a" "0 < b" | (pn) "0 \<le> a" "b < 0" | (np) "a \<le> 0" "0 < b"
    | (nn) "a < 0" "b < 0" using nz by linarith
  then show ?thesis
  proof cases
    case pp
    with div_bounds [of a b] ra m show ?thesis by (simp add: tdiv_nonneg_pos in_range_def)
  next
    case pn
    with rb have "is_signed T" by (auto simp: in_range_def tmin_def split: if_splits)
    then have "tmin T = - tmax T - 1" by (rule tmin_signed)
    with pn div_bounds [of a "- b"] ra M show ?thesis by (simp add: tdiv_nonneg_neg in_range_def)
  next
    case np
    with div_bounds [of "- a" b] ra M show ?thesis by (simp add: tdiv_nonpos_pos in_range_def)
  next
    case nn
    with rb have "is_signed T" by (auto simp: in_range_def tmin_def split: if_splits)
    then have mM: "tmin T = - tmax T - 1" by (rule tmin_signed)
    have q: "tdiv a b = (- a) div (- b)" using nn by (simp add: tdiv_nonpos_neg)
    have b0: "0 \<le> (- a) div (- b)" "(- a) div (- b) \<le> - a"
      using div_bounds [of "- a" "- b"] nn by simp_all
    have "(- a) div (- b) \<le> tmax T"
    proof (cases "a = tmin T")
      case False
      with ra mM b0 show ?thesis by (simp add: in_range_def)
    next
      case True
      with ne nn have "1 < - b" by simp
      with nn have "(- a) div (- b) < - a" by (intro int_div_less_self) simp_all
      with True mM show ?thesis by simp
    qed
    with b0 m q show ?thesis by (simp add: in_range_def)
  qed
qed

lemma c_div_in_range:
  "b \<noteq> 0 \<Longrightarrow> in_range T (tdiv a b) \<Longrightarrow> c_div (promote T) a b = Returned (tdiv a b)"
  by (simp add: c_div_def arith_result_in_range in_range_promote)

section \<open>Construction\<close>

lemma SnugInt_from_promote:
  assumes "wf_ctype T" and "in_range (promote T) s"
  shows "SnugInt_from T (promote T) s =
     (if in_range T s then Returned (make T s) else Threw snugint_size_mismatch)"
proof -
  have "in_range T (tmax T)" and "in_range T (tmin T)"
    using tmin_less_tmax [OF assms(1)] by (auto simp: in_range_def)
  then have mx: "in_range (promote T) (tmax T)" and mn: "in_range (promote T) (tmin T)"
    by (auto intro: in_range_promote)
  have "c_less T (tmax T) (promote T) s = (tmax T < s)"
    using assms mx by (simp add: c_less_exact common_type_promote promote_idem wf_promote)
  moreover have "c_less (promote T) s T (tmin T) = (s < tmin T)"
    using assms mn by (simp add: c_less_exact common_type_promote promote_idem wf_promote)
  ultimately show ?thesis
    using tmin_less_tmax [OF assms(1)] assms(1)
    by (auto simp: SnugInt_from_def Let_def make_def convert_id in_range_def)
qed

lemma SnugInt_from_same:
  assumes "wf_ctype T" and "in_range T s"
  shows "SnugInt_from T T s = Returned (make T s)"
proof -
  have mx: "in_range T (tmax T)" and mn: "in_range T (tmin T)"
    using tmin_less_tmax [OF assms(1)] by (auto simp: in_range_def)
  have c: "common_type T T = promote T" by (simp add: common_type_promote)
  have "c_less T (tmax T) T s = (tmax T < s)"
    using assms mx by (simp add: c_less_exact c wf_promote in_range_promote)
  moreover have "c_less T s T (tmin T) = (s < tmin T)"
    using assms mn by (simp add: c_less_exact c wf_promote in_range_promote)
  ultimately show ?thesis
    using tmin_less_tmax [OF assms(1)] assms
    by (auto simp: SnugInt_from_def Let_def make_def convert_id in_range_def)
qed

lemma construct_in_range:
  assumes "wf_ctype T" and "in_range T s"
  shows "and_then (arith_result (promote T) s) (SnugInt_from T (promote T)) = Returned (make T s)"
  using assms by (simp add: arith_result_in_range in_range_promote SnugInt_from_promote)

lemma SnugInt_from_instance:
  "wf_ctype Type \<Longrightarrow> SnugInt_from Type T item = Returned s \<Longrightarrow> instance_of Type s"
  by (auto simp: SnugInt_from_def Let_def instance_of_def convert_in_range split: if_splits)

lemma SnugInt_copy_instance:
  assumes "wf_ctype T" and "instance_of T s"
  shows "SnugInt_copy s = Returned s"
  using assms tmin_less_tmax [OF assms(1)]
  by (simp add: SnugInt_copy_def Let_def instance_of_def)

text \<open>
  When the item's type and \<open>Type\<close> have the same signedness after promotion, the guard of
  the converting constructor is exact: the item is rejected with the size mismatch exception
  exactly when it lies outside the limits of \<open>Type\<close>, and is stored unchanged otherwise.
\<close>

lemma SnugInt_from_same_signedness:
  assumes Ty: "wf_ctype Type" and T: "wf_ctype T" and it: "in_range T item"
    and sg: "is_signed (promote T) = is_signed (promote Type)"
  shows "SnugInt_from Type T item =
     (if in_range Type item then Returned (make Type item) else Threw snugint_size_mismatch)"
proof -
  have lim: "in_range Type (tmax Type)" "in_range Type (tmin Type)"
    using tmin_less_tmax [OF Ty] by (simp_all add: in_range_def)
  have "c_less Type (tmax Type) T item = (tmax Type < item)"
    using common_type_same_signedness [OF sg [symmetric]] Ty T it lim
    by (intro c_less_exact) simp_all
  moreover have "c_less T item Type (tmin Type) = (item < tmin Type)"
    using common_type_same_signedness [OF sg] Ty T it lim
    by (intro c_less_exact) simp_all
  ultimately show ?thesis
    using tmin_less_tmax [OF Ty] Ty
    by (auto simp: SnugInt_from_def Let_def make_def convert_id in_range_def)
qed

text \<open>
  C7. The claim: for every integral item, the converting constructor throws the size
  mismatch exception exactly when the item lies outside \<open>[min(Type), max(Type)]\<close>, and
  otherwise stores the item unchanged. The code at two inputs of mixed signedness: the
  \<open>int\<close> item \<open>-1\<close> given to \<open>SnugInt<unsigned int>\<close> is outside the range, yet the guard
  compares it as \<open>4294967295\<close>, lets it pass and stores \<open>4294967295\<close>; the \<open>unsigned int\<close> item
  \<open>1\<close> given to \<open>SnugInt<int>\<close> is inside the range, yet \<open>item < min\<close> compares it with
  \<open>2147483648\<close> and the constructor throws.
\<close>

theorem SnugInt_from_mixed_signedness:
  "in_range c_int (- 1) \<and> \<not> in_range c_uint (- 1)
   \<and> SnugInt_from c_uint c_int (- 1) = Returned (make c_uint 4294967295)
   \<and> in_range c_uint 1 \<and> in_range c_int 1
   \<and> SnugInt_from c_int c_uint 1 = Threw snugint_size_mismatch"
  by code_simp

section \<open>Checked addition\<close>

lemma SafeAdd_exact:
  assumes T: "wf_ctype T" and l: "instance_of T left" and r: "instance_of T right"
  shows "SafeAdd T left right =
     (if tmax T < value_m left + value_m right then Threw snugint_add_overflow
      else if value_m left + value_m right < tmin T then Threw snugint_add_underflow
      else Returned (make T (value_m left + value_m right)))"
proof -
  let ?a = "value_m left" and ?b = "value_m right"
  from l r have ra: "in_range T ?a" and rb: "in_range T ?b"
    and mx: "max_m left = tmax T" and mn: "min_m left = tmin T"
    by (simp_all add: instance_of_def)
  note lt = c_less_zero_left [OF T] c_less_zero_right [OF T]
  consider (pos) "0 < ?a" "0 < ?b" | (neg) "?a < 0" "?b < 0"
    | (mixed) "\<not> (0 < ?a \<and> 0 < ?b)" "\<not> (?a < 0 \<and> ?b < 0)" by linarith
  then show ?thesis
  proof cases
    case pos
    have d: "in_range T (tmax T - ?a)"
      using ra pos tmin_le_0 [of T] by (auto simp: in_range_def)
    have chk: "SafeAdd_check T left right =
        (if tmax T - ?a < ?b then Threw snugint_add_overflow else Returned ())"
      using pos ra rb d
      by (simp add: SafeAdd_check_def Let_def lt mx c_sub_def
          arith_result_in_range in_range_promote c_less_promote_left [OF T])
    show ?thesis
    proof (cases "tmax T - ?a < ?b")
      case True
      with chk show ?thesis by (simp add: SafeAdd_def)
    next
      case False
      with pos ra have s: "in_range T (?a + ?b)" by (auto simp: in_range_def)
      then have "\<not> tmax T < ?a + ?b" "\<not> ?a + ?b < tmin T" by (auto simp: in_range_def)
      with chk False s T show ?thesis
        by (simp add: SafeAdd_def c_add_def construct_in_range)
    qed
  next
    case neg
    have d: "in_range T (tmin T - ?a)"
      using ra neg tmax_ge_127 [OF T] by (auto simp: in_range_def)
    have chk: "SafeAdd_check T left right =
        (if ?b < tmin T - ?a then Threw snugint_add_underflow else Returned ())"
      using neg ra rb d
      by (simp add: SafeAdd_check_def Let_def lt mn c_sub_def
          arith_result_in_range in_range_promote c_less_promote_right [OF T])
    show ?thesis
    proof (cases "?b < tmin T - ?a")
      case True
      with chk neg tmin_less_tmax [OF T] show ?thesis by (simp add: SafeAdd_def)
    next
      case False
      with neg ra tmin_less_tmax [OF T] have s: "in_range T (?a + ?b)" by (auto simp: in_range_def)
      then have "\<not> tmax T < ?a + ?b" "\<not> ?a + ?b < tmin T" by (auto simp: in_range_def)
      with chk False s T show ?thesis
        by (simp add: SafeAdd_def c_add_def construct_in_range)
    qed
  next
    case mixed
    have chk: "SafeAdd_check T left right = Returned ()"
      using mixed ra rb by (auto simp add: SafeAdd_check_def Let_def lt)
    from mixed ra rb have s: "in_range T (?a + ?b)" by (auto simp: in_range_def)
    then have "\<not> tmax T < ?a + ?b" "\<not> ?a + ?b < tmin T" by (auto simp: in_range_def)
    with chk s T show ?thesis
      by (simp add: SafeAdd_def c_add_def construct_in_range)
  qed
qed

lemma SafeAdd_instance: "wf_ctype T \<Longrightarrow> SafeAdd T a b = Returned s \<Longrightarrow> instance_of T s"
  unfolding SafeAdd_def by (blast dest: and_then_Returned SnugInt_from_instance)

text \<open>
  C1. For a signed underlying type and operands that are instances of it: when the exact
  sum lies within the limits of the type, SafeAdd returns a wrapper whose stored value is
  that sum; when the sum is above the maximum it throws the addition overflow exception;
  when the sum is below the minimum it throws the addition underflow exception.
\<close>

theorem SafeAdd_signed:
  assumes "wf_ctype T" and "is_signed T"
    and "instance_of T left" and "instance_of T right"
  shows "(in_range T (value_m left + value_m right) \<longrightarrow>
            SafeAdd T left right = Returned (make T (value_m left + value_m right)) \<and>
            (\<forall>s. SafeAdd T left right = Returned s \<longrightarrow>
                 value_m s = value_m left + value_m right))
       \<and> (tmax T < value_m left + value_m right \<longrightarrow>
            SafeAdd T left right = Threw snugint_add_overflow)
       \<and> (value_m left + value_m right < tmin T \<longrightarrow>
            SafeAdd T left right = Threw snugint_add_underflow)"
  using tmin_less_tmax [OF assms(1)]
  by (auto simp: SafeAdd_exact [OF assms(1,3,4)] in_range_def make_def)

theorem SafeAdd_signed_witness:
  "wf_ctype c_int8 \<and> is_signed c_int8
   \<and> instance_of c_int8 (make c_int8 100) \<and> instance_of c_int8 (make c_int8 20)
   \<and> instance_of c_int8 (make c_int8 (- 100)) \<and> instance_of c_int8 (make c_int8 (- 30))
   \<and> in_range c_int8 (100 + 20) \<and> tmax c_int8 < 100 + 100 \<and> - 100 + - 30 < tmin c_int8
   \<and> SafeAdd c_int8 (make c_int8 100) (make c_int8 20) = Returned (make c_int8 120)
   \<and> SafeAdd c_int8 (make c_int8 100) (make c_int8 100) = Threw snugint_add_overflow
   \<and> SafeAdd c_int8 (make c_int8 (- 100)) (make c_int8 (- 30)) = Threw snugint_add_underflow"
proof -
  have T: "wf_ctype c_int8" "is_signed c_int8" by (simp_all add: wf_ctype_def c_int8_def)
  have i: "instance_of c_int8 (make c_int8 100)" "instance_of c_int8 (make c_int8 20)"
    "instance_of c_int8 (make c_int8 (- 100))" "instance_of c_int8 (make c_int8 (- 30))"
    by (simp_all add: instance_of_make in_range_int8)
  have h: "in_range c_int8 (100 + 20)" "tmax c_int8 < 100 + 100" "- 100 + - 30 < tmin c_int8"
    by (simp_all add: in_range_def tmax_def tmin_def c_int8_def)
  have "SafeAdd c_int8 (make c_int8 100) (make c_int8 20) = Returned (make c_int8 120)"
    using SafeAdd_signed [OF T i(1) i(2)] h(1) by (simp add: value_m_make)
  moreover have "SafeAdd c_int8 (make c_int8 100) (make c_int8 100) = Threw snugint_add_overflow"
    using SafeAdd_signed [OF T i(1) i(1)] h(2) by (simp add: value_m_make)
  moreover have "SafeAdd c_int8 (make c_int8 (- 100)) (make c_int8 (- 30)) = Threw snugint_add_underflow"
    using SafeAdd_signed [OF T i(3) i(4)] h(3) by (simp add: value_m_make)
  ultimately show ?thesis using T i h by simp
qed

section \<open>Checked subtraction\<close>

lemma SafeSub_instance: "wf_ctype T \<Longrightarrow> SafeSub T a b = Returned s \<Longrightarrow> instance_of T s"
  unfolding SafeSub_def by (blast dest: and_then_Returned SnugInt_from_instance)

text \<open>
  C5, as amended. For a signed underlying type and operands that are instances of it, with
  the same sign or with either of them zero, and not the pair \<open>left.value = 0\<close>,
  \<open>right.value = min\<close>: the difference lies within \<open>[min, max]\<close>, the precondition part of
  SafeSub takes neither of its two guarded branches, and SafeSub returns a wrapper whose stored
  value is the difference.
\<close>

theorem SafeSub_same_sign:
  assumes T: "wf_ctype T" and sg: "is_signed T"
    and l: "instance_of T left" and r: "instance_of T right"
    and same: "(0 < value_m left \<and> 0 < value_m right) \<or> (value_m left < 0 \<and> value_m right < 0)
               \<or> value_m left = 0 \<or> value_m right = 0"
    and ne: "\<not> (value_m left = 0 \<and> value_m right = tmin T)"
  shows "in_range T (value_m left - value_m right)
       \<and> SafeSub_check T left right = Returned ()
       \<and> SafeSub T left right = Returned (make T (value_m left - value_m right))"
proof -
  let ?a = "value_m left" and ?b = "value_m right"
  from l r have ra: "in_range T ?a" and rb: "in_range T ?b"
    by (simp_all add: instance_of_def)
  have mM: "tmin T = - tmax T - 1" using sg by (rule tmin_signed)
  have d: "in_range T (?a - ?b)"
    using same ne ra rb mM by (auto simp: in_range_def)
  have chk: "SafeSub_check T left right = Returned ()"
    using same ra rb
    by (auto simp: SafeSub_check_def Let_def c_less_zero_left [OF T] c_less_zero_right [OF T])
  with d T show ?thesis by (simp add: SafeSub_def c_sub_def construct_in_range)
qed

theorem SafeSub_same_sign_witness:
  "wf_ctype c_int8 \<and> is_signed c_int8
   \<and> instance_of c_int8 (make c_int8 (- 1)) \<and> instance_of c_int8 (make c_int8 (- 128))
   \<and> ((0 < value_m (make c_int8 (- 1)) \<and> 0 < value_m (make c_int8 (- 128)))
       \<or> (value_m (make c_int8 (- 1)) < 0 \<and> value_m (make c_int8 (- 128)) < 0)
       \<or> value_m (make c_int8 (- 1)) = 0 \<or> value_m (make c_int8 (- 128)) = 0)
   \<and> \<not> (value_m (make c_int8 (- 1)) = 0 \<and> value_m (make c_int8 (- 128)) = tmin c_int8)
   \<and> in_range c_int8 127
   \<and> SafeSub_check c_int8 (make c_int8 (- 1)) (make c_int8 (- 128)) = Returned ()
   \<and> SafeSub c_int8 (make c_int8 (- 1)) (make c_int8 (- 128)) = Returned (make c_int8 127)"
proof -
  have i: "instance_of c_int8 (make c_int8 (- 1))" "instance_of c_int8 (make c_int8 (- 128))"
    by (simp_all add: instance_of_make in_range_int8)
  have same: "(0 < value_m (make c_int8 (- 1)) \<and> 0 < value_m (make c_int8 (- 128)))
       \<or> (value_m (make c_int8 (- 1)) < 0 \<and> value_m (make c_int8 (- 128)) < 0)
       \<or> value_m (make c_int8 (- 1)) = 0 \<or> value_m (make c_int8 (- 128)) = 0"
    by (simp add: value_m_make)
  have ne: "\<not> (value_m (make c_int8 (- 1)) = 0 \<and> value_m (make c_int8 (- 128)) = tmin c_int8)"
    by (simp add: value_m_make)
  show ?thesis
    using SafeSub_same_sign [OF wf_int8 signed_int8 i same ne] wf_int8 signed_int8 i same ne
    by (simp add: value_m_make)
qed

text \<open>
  C5 as stated fails for zero minus the minimum: both operands are instances, the left one
  is zero, and the difference \<open>0 - (-128) = 128\<close> is above the maximum. Over \<open>int8_t\<close> the
  difference is computed in \<open>int\<close> and the constructor rejects it; over \<open>int\<close> the subtraction
  itself overflows.
\<close>

theorem SafeSub_zero_minus_min:
  "instance_of c_int8 (make c_int8 0) \<and> instance_of c_int8 (make c_int8 (- 128))
   \<and> \<not> in_range c_int8 (0 - (- 128))
   \<and> SafeSub c_int8 (make c_int8 0) (make c_int8 (- 128)) = Threw snugint_size_mismatch
   \<and> SafeSub c_int (make c_int 0) (make c_int (- 2147483648)) = Undefined"
  by code_simp

text \<open>
  For an unsigned underlying type at least as wide as \<open>int\<close>, no operand is ever negative, so
  neither guard of SafeSub is entered: SafeSub never throws and returns the difference
  modulo \<open>2 ^ bits\<close>.
\<close>

lemma SafeSub_unsigned:
  assumes T: "wf_ctype T" and us: "\<not> is_signed T" and wide: "int_bits \<le> bits T"
    and l: "instance_of T left" and r: "instance_of T right"
  shows "SafeSub T left right = Returned (make T ((value_m left - value_m right) mod 2 ^ bits T))"
proof -
  from l r have ra: "in_range T (value_m left)" and rb: "in_range T (value_m right)"
    by (simp_all add: instance_of_def)
  from ra rb us have nn: "\<not> value_m left < 0" "\<not> value_m right < 0"
    by (simp_all add: in_range_def tmin_def)
  have P: "promote T = T" using wide by (simp add: promote_def)
  have chk: "SafeSub_check T left right = Returned ()"
    using ra rb nn by (simp add: SafeSub_check_def Let_def c_less_zero_left [OF T] c_less_zero_right [OF T])
  have w: "in_range T ((value_m left - value_m right) mod 2 ^ bits T)"
    using us by (simp add: in_range_def tmin_def tmax_def)
  show ?thesis
    using us SnugInt_from_same [OF T w]
    by (simp add: SafeSub_def chk P c_sub_def arith_result_def)
qed

text \<open>
  C3. The claim: over an unsigned underlying type, subtracting a larger wrapper from a
  smaller one throws the subtraction underflow exception and never yields a wrapped-around
  value. The code at \<open>SnugInt<unsigned int>(1) - SnugInt<unsigned int>(10)\<close>: it returns a
  wrapper whose stored value is \<open>4294967287 = 2 ^ 32 - 9\<close>. Over \<open>uint8_t\<close> the difference
  \<open>-9\<close> is computed in \<open>int\<close> and it is the constructor that rejects it, with the size mismatch
  exception.
\<close>

theorem SafeSub_unsigned_wraps:
  "instance_of c_uint (make c_uint 1) \<and> instance_of c_uint (make c_uint 10)
   \<and> operator_minus c_uint (make c_uint 1) (make c_uint 10) = Returned (make c_uint 4294967287)
   \<and> SafeSub c_uint (make c_uint 1) (make c_uint 10) = Returned (make c_uint 4294967287)
   \<and> SafeSub c_uint8 (make c_uint8 1) (make c_uint8 10) = Threw snugint_size_mismatch"
  by code_simp

section \<open>Checked multiplication\<close>

lemma SafeMult_exact:
  assumes T: "wf_ctype T" and l: "instance_of T left" and r: "instance_of T right"
  shows "SafeMult T left right =
     (if tmax T < value_m left * value_m right then Threw snugint_mult_overflow
      else if value_m left * value_m right < tmin T then Threw snugint_mult_underflow
      else Returned (make T (value_m left * value_m right)))"
proof -
  let ?a = "value_m left" and ?b = "value_m right"
  from l r have ra: "in_range T ?a" and rb: "in_range T ?b"
    and mx: "max_m left = tmax T" and mn: "min_m left = tmin T"
    by (simp_all add: instance_of_def)
  note lt = c_less_zero_left [OF T] c_less_zero_right [OF T]
  have M: "127 \<le> tmax T" by (rule tmax_ge_127 [OF T])
  have m: "tmin T \<le> 0" by (rule tmin_le_0)
  have fin: "in_range T (?a * ?b) \<Longrightarrow> SafeMult_check T left right = Returned () \<Longrightarrow> ?thesis"
    using T by (auto simp: SafeMult_def c_mul_def construct_in_range in_range_def)
  consider (pp) "0 < ?a" "0 < ?b" | (pn) "0 < ?a" "?b \<le> 0"
    | (np) "?a \<le> 0" "0 < ?b" | (zn) "?a = 0" "?b \<le> 0" | (nn) "?a < 0" "?b \<le> 0"
    by linarith
  then show ?thesis
  proof cases
    case pp
    have q: "tdiv (tmax T) ?b = tmax T div ?b" using pp M by (simp add: tdiv_nonneg_pos)
    have qr: "in_range T (tmax T div ?b)"
      using div_bounds [of "tmax T" ?b] pp M m by (simp add: in_range_def)
    have chk: "SafeMult_check T left right =
        (if tmax T div ?b < ?a then Threw snugint_mult_overflow else Returned ())"
      using pp ra rb qr c_div_in_range [of ?b T "tmax T"]
      by (simp add: SafeMult_check_def Let_def lt mx q in_range_promote c_less_promote_left [OF T])
    have iff: "(tmax T div ?b < ?a) = (tmax T < ?a * ?b)"
      using pp by (simp add: int_div_less_iff)
    show ?thesis
    proof (cases "tmax T < ?a * ?b")
      case True
      with chk iff show ?thesis by (simp add: SafeMult_def)
    next
      case False
      moreover have "0 < ?a * ?b" using pp by simp
      ultimately have "in_range T (?a * ?b)" using m by (simp add: in_range_def)
      with chk iff False show ?thesis by (intro fin) simp_all
    qed
  next
    case pn
    have q: "tdiv (tmin T) ?a = - ((- tmin T) div ?a)" using pn m by (simp add: tdiv_nonpos_pos)
    have qr: "in_range T (- ((- tmin T) div ?a))"
      using div_bounds [of "- tmin T" ?a] pn M m by (simp add: in_range_def)
    have chk: "SafeMult_check T left right =
        (if ?b < - ((- tmin T) div ?a) then Threw snugint_mult_underflow else Returned ())"
      using pn ra rb qr c_div_in_range [of ?a T "tmin T"]
      by (simp add: SafeMult_check_def Let_def lt mn q in_range_promote c_less_promote_right [OF T])
    have "(?b < - ((- tmin T) div ?a)) = ((- tmin T) div ?a < - ?b)" by linarith
    also have "\<dots> = (- tmin T < (- ?b) * ?a)" using pn by (simp add: int_div_less_iff)
    also have "\<dots> = (?a * ?b < tmin T)" by (simp add: algebra_simps)
    finally have iff: "(?b < - ((- tmin T) div ?a)) = (?a * ?b < tmin T)" .
    have le0: "?a * ?b \<le> 0" using pn by (simp add: mult_nonneg_nonpos)
    show ?thesis
    proof (cases "?a * ?b < tmin T")
      case True
      with chk iff le0 M show ?thesis by (simp add: SafeMult_def)
    next
      case False
      with le0 M have "in_range T (?a * ?b)" by (simp add: in_range_def)
      with chk iff False show ?thesis by (intro fin) simp_all
    qed
  next
    case np
    have q: "tdiv (tmin T) ?b = - ((- tmin T) div ?b)" using np m by (simp add: tdiv_nonpos_pos)
    have qr: "in_range T (- ((- tmin T) div ?b))"
      using div_bounds [of "- tmin T" ?b] np M m by (simp add: in_range_def)
    have chk: "SafeMult_check T left right =
        (if ?a < - ((- tmin T) div ?b) then Threw snugint_mult_underflow else Returned ())"
      using np ra rb qr c_div_in_range [of ?b T "tmin T"]
      by (simp add: SafeMult_check_def Let_def lt mn q in_range_promote c_less_promote_right [OF T])
    have "(?a < - ((- tmin T) div ?b)) = ((- tmin T) div ?b < - ?a)" by linarith
    also have "\<dots> = (- tmin T < (- ?a) * ?b)" using np by (simp add: int_div_less_iff)
    also have "\<dots> = (?a * ?b < tmin T)" by (simp add: algebra_simps)
    finally have iff: "(?a < - ((- tmin T) div ?b)) = (?a * ?b < tmin T)" .
    have le0: "?a * ?b \<le> 0" using np by (simp add: mult_nonpos_nonneg)
    show ?thesis
    proof (cases "?a * ?b < tmin T")
      case True
      with chk iff le0 M show ?thesis by (simp add: SafeMult_def)
    next
      case False
      with le0 M have "in_range T (?a * ?b)" by (simp add: in_range_def)
      with chk iff False show ?thesis by (intro fin) simp_all
    qed
  next
    case zn
    have chk: "SafeMult_check T left right = Returned ()"
      using zn ra rb by (simp add: SafeMult_check_def Let_def lt)
    have "in_range T (?a * ?b)" using zn by (simp add: in_range_zero)
    with chk show ?thesis by (intro fin) simp_all
  next
    case nn
    from nn ra have sg: "is_signed T" by (auto simp: in_range_def tmin_def split: if_splits)
    then have mM: "tmin T = - tmax T - 1" by (rule tmin_signed)
    have q: "tdiv (tmax T) ?a = - (tmax T div (- ?a))" using nn M by (simp add: tdiv_nonneg_neg)
    have qr: "in_range T (- (tmax T div (- ?a)))"
      using div_bounds [of "tmax T" "- ?a"] nn M mM by (simp add: in_range_def)
    have chk: "SafeMult_check T left right =
        (if ?b < - (tmax T div (- ?a)) then Threw snugint_mult_overflow else Returned ())"
      using nn ra rb qr c_div_in_range [of ?a T "tmax T"]
      by (simp add: SafeMult_check_def Let_def lt mx q in_range_promote c_less_promote_right [OF T])
    have "(?b < - (tmax T div (- ?a))) = (tmax T div (- ?a) < - ?b)" by linarith
    also have "\<dots> = (tmax T < (- ?b) * (- ?a))" using nn by (simp add: int_div_less_iff)
    also have "\<dots> = (tmax T < ?a * ?b)" by (simp add: algebra_simps)
    finally have iff: "(?b < - (tmax T div (- ?a))) = (tmax T < ?a * ?b)" .
    have ge0: "0 \<le> ?a * ?b" using nn by (simp add: mult_nonpos_nonpos)
    show ?thesis
    proof (cases "tmax T < ?a * ?b")
      case True
      with chk iff show ?thesis by (simp add: SafeMult_def)
    next
      case False
      with ge0 m have "in_range T (?a * ?b)" by (simp add: in_range_def)
      with chk iff False show ?thesis by (intro fin) simp_all
    qed
  qed
qed

lemma SafeMult_instance: "wf_ctype T \<Longrightarrow> SafeMult T a b = Returned s \<Longrightarrow> instance_of T s"
  unfolding SafeMult_def by (blast dest: and_then_Returned SnugInt_from_instance)

text \<open>
  C4. For a signed underlying type and operands that are instances of it, SafeMult throws
  exactly as the sign-quadrant table says, with the quotients of C++ division: multiplication
  overflow for two positive operands when \<open>left.value > left.max / right.value\<close>,
  multiplication underflow for a positive and a negative operand when
  \<open>right.value < left.min / left.value\<close>, multiplication underflow for a negative and a
  positive operand when \<open>left.value < left.min / right.value\<close>, multiplication overflow for
  two negative operands when \<open>right.value < left.max / left.value\<close>. In every other case
  it returns a wrapper whose stored value is the product, and a zero operand always gives
  the product zero.
\<close>

theorem SafeMult_signed:
  assumes T: "wf_ctype T" and sg: "is_signed T"
    and l: "instance_of T left" and r: "instance_of T right"
  shows "SafeMult T left right =
     (if 0 < value_m left \<and> 0 < value_m right
           \<and> tdiv (max_m left) (value_m right) < value_m left
        then Threw snugint_mult_overflow
      else if 0 < value_m left \<and> value_m right < 0
           \<and> value_m right < tdiv (min_m left) (value_m left)
        then Threw snugint_mult_underflow
      else if value_m left < 0 \<and> 0 < value_m right
           \<and> value_m left < tdiv (min_m left) (value_m right)
        then Threw snugint_mult_underflow
      else if value_m left < 0 \<and> value_m right < 0 \<and> value_m left \<noteq> 0
           \<and> value_m right < tdiv (max_m left) (value_m left)
        then Threw snugint_mult_overflow
      else Returned (make T (value_m left * value_m right)))
   \<and> (value_m left = 0 \<or> value_m right = 0 \<longrightarrow> SafeMult T left right = Returned (make T 0))"
proof -
  let ?a = "value_m left" and ?b = "value_m right"
  from l have mx: "max_m left = tmax T" and mn: "min_m left = tmin T"
    by (simp_all add: instance_of_def)
  have M: "0 \<le> tmax T" using tmax_ge_127 [OF T] by simp
  have m: "tmin T \<le> 0" by (rule tmin_le_0)
  note ex = SafeMult_exact [OF T l r]
  consider (pp) "0 < ?a" "0 < ?b" | (pn) "0 < ?a" "?b < 0" | (np) "?a < 0" "0 < ?b"
    | (nn) "?a < 0" "?b < 0" | (z) "?a = 0 \<or> ?b = 0" by linarith
  then show ?thesis
  proof cases
    case pp
    then have "0 < ?a * ?b" by simp
    with m have "\<not> ?a * ?b < tmin T" by linarith
    with pp M show ?thesis by (simp add: ex mx mn quadrant_pp)
  next
    case pn
    then have "?a * ?b < 0" by (simp add: mult_pos_neg)
    with M have "\<not> tmax T < ?a * ?b" by linarith
    with pn m show ?thesis by (simp add: ex mx mn quadrant_pn)
  next
    case np
    then have "?a * ?b < 0" by (simp add: mult_neg_pos)
    with M have "\<not> tmax T < ?a * ?b" by linarith
    with np m show ?thesis by (simp add: ex mx mn quadrant_np)
  next
    case nn
    then have "0 < ?a * ?b" by (simp add: mult_neg_neg)
    with m have "\<not> ?a * ?b < tmin T" by linarith
    with nn M show ?thesis by (simp add: ex mx mn quadrant_nn)
  next
    case z
    then have "?a * ?b = 0" by auto
    with z M m show ?thesis by (auto simp: ex)
  qed
qed

theorem SafeMult_signed_witness:
  "wf_ctype c_int8 \<and> is_signed c_int8
   \<and> instance_of c_int8 (make c_int8 100) \<and> instance_of c_int8 (make c_int8 2)
   \<and> instance_of c_int8 (make c_int8 (- 100)) \<and> instance_of c_int8 (make c_int8 (- 2))
   \<and> instance_of c_int8 (make c_int8 0)
   \<and> SafeMult c_int8 (make c_int8 100) (make c_int8 2) = Threw snugint_mult_overflow
   \<and> SafeMult c_int8 (make c_int8 100) (make c_int8 (- 2)) = Threw snugint_mult_underflow
   \<and> SafeMult c_int8 (make c_int8 (- 100)) (make c_int8 2) = Threw snugint_mult_underflow
   \<and> SafeMult c_int8 (make c_int8 (- 100)) (make c_int8 (- 2)) = Threw snugint_mult_overflow
   \<and> SafeMult c_int8 (make c_int8 2) (make c_int8 (- 2)) = Returned (make c_int8 (- 4))
   \<and> SafeMult c_int8 (make c_int8 0) (make c_int8 (- 100)) = Returned (make c_int8 0)"
proof -
  have T: "wf_ctype c_int8" "is_signed c_int8" by (simp_all add: wf_ctype_def c_int8_def)
  have i: "instance_of c_int8 (make c_int8 100)" "instance_of c_int8 (make c_int8 2)"
    "instance_of c_int8 (make c_int8 (- 100))" "instance_of c_int8 (make c_int8 (- 2))"
    "instance_of c_int8 (make c_int8 0)"
    by (simp_all add: instance_of_make in_range_int8)
  note s = value_m_make max_m_make min_m_make tmin_int8 tmax_int8 tdiv_def
  have "SafeMult c_int8 (make c_int8 100) (make c_int8 2) = Threw snugint_mult_overflow"
    using SafeMult_signed [OF T i(1) i(2)] by (simp add: s)
  moreover have "SafeMult c_int8 (make c_int8 100) (make c_int8 (- 2)) = Threw snugint_mult_underflow"
    using SafeMult_signed [OF T i(1) i(4)] by (simp add: s)
  moreover have "SafeMult c_int8 (make c_int8 (- 100)) (make c_int8 2) = Threw snugint_mult_underflow"
    using SafeMult_signed [OF T i(3) i(2)] by (simp add: s)
  moreover have "SafeMult c_int8 (make c_int8 (- 100)) (make c_int8 (- 2)) = Threw snugint_mult_overflow"
    using SafeMult_signed [OF T i(3) i(4)] by (simp add: s)
  moreover have "SafeMult c_int8 (make c_int8 2) (make c_int8 (- 2)) = Returned (make c_int8 (- 4))"
    using SafeMult_signed [OF T i(2) i(4)] by (simp add: s)
  moreover have "SafeMult c_int8 (make c_int8 0) (make c_int8 (- 100)) = Returned (make c_int8 0)"
    using SafeMult_signed [OF T i(5) i(3)] by (simp add: s)
  ultimately show ?thesis using T i by simp
qed

section \<open>Division\<close>

lemma SafeDiv_instance: "wf_ctype T \<Longrightarrow> SafeDiv T a b = Returned s \<Longrightarrow> instance_of T s"
  unfolding SafeDiv_def by (blast dest: and_then_Returned SnugInt_from_instance)

text \<open>
  C6, as amended. For operands that are instances of the underlying type, with a divisor
  that is not zero, and not the pair \<open>left.value = min\<close>, \<open>right.value = -1\<close>: the quotient
  truncated towards zero lies within \<open>[min, max]\<close> and SafeDiv returns a wrapper whose stored
  value is that quotient.
\<close>

theorem SafeDiv_in_range:
  assumes T: "wf_ctype T" and l: "instance_of T left" and r: "instance_of T right"
    and nz: "value_m right \<noteq> 0"
    and ne: "\<not> (value_m left = tmin T \<and> value_m right = - 1)"
  shows "in_range T (tdiv (value_m left) (value_m right))
       \<and> SafeDiv T left right = Returned (make T (tdiv (value_m left) (value_m right)))"
proof -
  from l r have ra: "in_range T (value_m left)" and rb: "in_range T (value_m right)"
    by (simp_all add: instance_of_def)
  have q: "in_range T (tdiv (value_m left) (value_m right))"
    by (rule tdiv_in_range [OF T ra rb nz ne])
  with T nz show ?thesis by (simp add: SafeDiv_def c_div_def construct_in_range)
qed

theorem SafeDiv_in_range_witness:
  "wf_ctype c_int8
   \<and> instance_of c_int8 (make c_int8 (- 128)) \<and> instance_of c_int8 (make c_int8 3)
   \<and> value_m (make c_int8 3) \<noteq> 0
   \<and> \<not> (value_m (make c_int8 (- 128)) = tmin c_int8 \<and> value_m (make c_int8 3) = - 1)
   \<and> in_range c_int8 (- 42)
   \<and> SafeDiv c_int8 (make c_int8 (- 128)) (make c_int8 3) = Returned (make c_int8 (- 42))"
proof -
  have i: "instance_of c_int8 (make c_int8 (- 128))" "instance_of c_int8 (make c_int8 3)"
    by (simp_all add: instance_of_make in_range_int8)
  have nz: "value_m (make c_int8 3) \<noteq> 0" by (simp add: value_m_make)
  have ne: "\<not> (value_m (make c_int8 (- 128)) = tmin c_int8 \<and> value_m (make c_int8 3) = - 1)"
    by (simp add: value_m_make)
  have q: "tdiv (- 128) 3 = - 42" by (simp add: tdiv_def)
  show ?thesis
    using SafeDiv_in_range [OF wf_int8 i nz ne] wf_int8 i nz ne
    by (simp add: value_m_make q)
qed

text \<open>
  C6 as stated fails for the minimum divided by minus one: the divisor is not zero and the
  quotient \<open>128\<close> is above the maximum. Over \<open>int8_t\<close> the constructor rejects it; over
  \<open>int\<close> the division itself overflows.
\<close>

theorem SafeDiv_min_by_minus_one:
  "instance_of c_int8 (make c_int8 (- 128)) \<and> instance_of c_int8 (make c_int8 (- 1))
   \<and> value_m (make c_int8 (- 1)) \<noteq> 0
   \<and> \<not> in_range c_int8 (tdiv (- 128) (- 1))
   \<and> SafeDiv c_int8 (make c_int8 (- 128)) (make c_int8 (- 1)) = Threw snugint_size_mismatch
   \<and> SafeDiv c_int (make c_int (- 2147483648)) (make c_int (- 1)) = Undefined"
  by code_simp

text \<open>
  C2, as amended. SafeDiv does not look at the divisor before dividing: for every dividend,
  a divisor whose stored value is zero makes SafeDiv evaluate \<open>left.value / 0\<close>, which is
  undefined behaviour; no exception is thrown.
\<close>

theorem SafeDiv_zero_divisor:
  assumes "value_m right = 0"
  shows "SafeDiv T left right = Undefined"
  using assms by (simp add: SafeDiv_def c_div_def)

theorem SafeDiv_zero_divisor_witness:
  "value_m (make c_int 0) = 0 \<and> SafeDiv c_int (make c_int 10) (make c_int 0) = Undefined"
  using SafeDiv_zero_divisor [of "make c_int 0" c_int "make c_int 10"]
  by (simp add: value_m_make)

text \<open>
  C2 as stated fails: dividing ten by a zero-valued wrapper does not end in an exception.
\<close>

theorem SafeDiv_zero_divisor_not_thrown:
  "\<not> is_Threw (SafeDiv c_int (make c_int 10) (make c_int 0))
   \<and> \<not> is_Threw (SafeDiv c_int8 (make c_int8 10) (make c_int8 0))"
  by code_simp

section \<open>Commutativity\<close>

text \<open>
  C10. SafeAdd and SafeMult are commutative: for operands that are instances of the same
  type, \<open>SafeAdd(a, b)\<close> and \<open>SafeAdd(b, a)\<close> either both return a wrapper with the same
  stored value or both throw the same exception, and likewise \<open>SafeMult(a, b)\<close> and
  \<open>SafeMult(b, a)\<close>, although the checks are written in terms of the left operand's bounds.
  Neither call ends in undefined behaviour.
\<close>

theorem SafeAdd_SafeMult_commute:
  assumes "wf_ctype T" and "instance_of T a" and "instance_of T b"
  shows "((\<exists>s. SafeAdd T a b = Returned s \<and> SafeAdd T b a = Returned s
               \<and> value_m s = value_m a + value_m b)
          \<or> (\<exists>e. SafeAdd T a b = Threw e \<and> SafeAdd T b a = Threw e))
       \<and> ((\<exists>s. SafeMult T a b = Returned s \<and> SafeMult T b a = Returned s
               \<and> value_m s = value_m a * value_m b)
          \<or> (\<exists>e. SafeMult T a b = Threw e \<and> SafeMult T b a = Threw e))"
  by (simp add: SafeAdd_exact [OF assms] SafeAdd_exact [OF assms(1,3,2)]
      SafeMult_exact [OF assms] SafeMult_exact [OF assms(1,3,2)] add.commute mult.commute
      value_m_make)

theorem SafeAdd_SafeMult_commute_witness:
  "wf_ctype c_uint \<and> instance_of c_uint (make c_uint 7) \<and> instance_of c_uint (make c_uint 4000000000)
   \<and> ((\<exists>s. SafeAdd c_uint (make c_uint 7) (make c_uint 4000000000) = Returned s
            \<and> SafeAdd c_uint (make c_uint 4000000000) (make c_uint 7) = Returned s
            \<and> value_m s = 7 + 4000000000)
       \<or> (\<exists>e. SafeAdd c_uint (make c_uint 7) (make c_uint 4000000000) = Threw e
            \<and> SafeAdd c_uint (make c_uint 4000000000) (make c_uint 7) = Threw e))
   \<and> ((\<exists>s. SafeMult c_uint (make c_uint 7) (make c_uint 4000000000) = Returned s
            \<and> SafeMult c_uint (make c_uint 4000000000) (make c_uint 7) = Returned s
            \<and> value_m s = 7 * 4000000000)
       \<or> (\<exists>e. SafeMult c_uint (make c_uint 7) (make c_uint 4000000000) = Threw e
            \<and> SafeMult c_uint (make c_uint 4000000000) (make c_uint 7) = Threw e))"
proof -
  have T: "wf_ctype c_uint" by (rule wf_uint)
  have i: "instance_of c_uint (make c_uint 7)" "instance_of c_uint (make c_uint 4000000000)"
    by (simp_all add: instance_of_make in_range_uint)
  show ?thesis using SafeAdd_SafeMult_commute [OF T i] T i by (simp add: value_m_make)
qed

section \<open>Increment and decrement\<close>

lemma c_incr_in_range:
  assumes T: "wf_ctype T" and "in_range T v" and "v \<noteq> tmax T"
  shows "c_incr T v = Returned (v + 1)"
proof -
  from assms have "in_range T (v + 1)" by (simp add: in_range_def)
  with T show ?thesis
    by (simp add: c_incr_def c_add_def arith_result_in_range in_range_promote convert_id)
qed

lemma c_decr_in_range:
  assumes T: "wf_ctype T" and "in_range T v" and "v \<noteq> tmin T"
  shows "c_decr T v = Returned (v - 1)"
proof -
  from assms have "in_range T (v - 1)" by (simp add: in_range_def)
  with T show ?thesis
    by (simp add: c_decr_def c_sub_def arith_result_in_range in_range_promote convert_id)
qed

lemma pre_increment_exact:
  assumes T: "wf_ctype T" and s: "instance_of T s"
  shows "pre_increment T s =
           (if value_m s = max_m s then (Threw snugint_add_overflow, s)
            else (Returned (s\<lparr>value_m := value_m s + 1\<rparr>), s\<lparr>value_m := value_m s + 1\<rparr>))"
proof -
  from s have rv: "in_range T (value_m s)" and mx: "max_m s = tmax T"
    by (simp_all add: instance_of_def)
  show ?thesis using c_incr_in_range [OF T rv] by (simp add: pre_increment_def mx Let_def)
qed

lemma post_increment_exact:
  assumes T: "wf_ctype T" and s: "instance_of T s"
  shows "post_increment T s =
           (if value_m s = max_m s then (Threw snugint_add_overflow, s)
            else (Returned s, s\<lparr>value_m := value_m s + 1\<rparr>))"
  by (simp add: post_increment_def SnugInt_copy_instance [OF T s] pre_increment_exact [OF T s])

lemma pre_decrement_exact:
  assumes T: "wf_ctype T" and s: "instance_of T s"
  shows "pre_decrement T s =
           (if value_m s = min_m s then (Threw snugint_sub_underflow, s)
            else (Returned (s\<lparr>value_m := value_m s - 1\<rparr>), s\<lparr>value_m := value_m s - 1\<rparr>))"
proof -
  from s have rv: "in_range T (value_m s)" and mn: "min_m s = tmin T"
    by (simp_all add: instance_of_def)
  show ?thesis using c_decr_in_range [OF T rv] by (simp add: pre_decrement_def mn Let_def)
qed

lemma post_decrement_exact:
  assumes T: "wf_ctype T" and s: "instance_of T s"
  shows "post_decrement T s =
           (if value_m s = min_m s then (Threw snugint_sub_underflow, s)
            else (Returned s, s\<lparr>value_m := value_m s - 1\<rparr>))"
  by (simp add: post_decrement_def SnugInt_copy_instance [OF T s] pre_decrement_exact [OF T s])

text \<open>
  C8. For every instance: prefix and postfix increment throw the addition overflow
  exception exactly when \<open>value = max\<close>, prefix and postfix decrement throw the subtraction
  underflow exception exactly when \<open>value = min\<close>, and the object is then unchanged;
  otherwise the stored value changes by exactly one, the prefix forms return the changed
  object and the postfix forms return the object as it was before.
\<close>

theorem increment_decrement:
  assumes T: "wf_ctype T" and s: "instance_of T s"
  shows "pre_increment T s =
           (if value_m s = max_m s then (Threw snugint_add_overflow, s)
            else (Returned (s\<lparr>value_m := value_m s + 1\<rparr>), s\<lparr>value_m := value_m s + 1\<rparr>))
       \<and> post_increment T s =
           (if value_m s = max_m s then (Threw snugint_add_overflow, s)
            else (Returned s, s\<lparr>value_m := value_m s + 1\<rparr>))
       \<and> pre_decrement T s =
           (if value_m s = min_m s then (Threw snugint_sub_underflow, s)
            else (Returned (s\<lparr>value_m := value_m s - 1\<rparr>), s\<lparr>value_m := value_m s - 1\<rparr>))
       \<and> post_decrement T s =
           (if value_m s = min_m s then (Threw snugint_sub_underflow, s)
            else (Returned s, s\<lparr>value_m := value_m s - 1\<rparr>))"
  by (simp add: pre_increment_exact [OF T s] post_increment_exact [OF T s]
      pre_decrement_exact [OF T s] post_decrement_exact [OF T s])

theorem increment_decrement_witness:
  "wf_ctype c_int8 \<and> instance_of c_int8 (make c_int8 127) \<and> instance_of c_int8 (make c_int8 (- 128))
   \<and> instance_of c_int8 (make c_int8 5)
   \<and> pre_increment c_int8 (make c_int8 127) = (Threw snugint_add_overflow, make c_int8 127)
   \<and> post_increment c_int8 (make c_int8 127) = (Threw snugint_add_overflow, make c_int8 127)
   \<and> pre_decrement c_int8 (make c_int8 (- 128)) = (Threw snugint_sub_underflow, make c_int8 (- 128))
   \<and> post_decrement c_int8 (make c_int8 (- 128)) = (Threw snugint_sub_underflow, make c_int8 (- 128))
   \<and> pre_increment c_int8 (make c_int8 5) = (Returned (make c_int8 6), make c_int8 6)
   \<and> post_increment c_int8 (make c_int8 5) = (Returned (make c_int8 5), make c_int8 6)
   \<and> pre_decrement c_int8 (make c_int8 5) = (Returned (make c_int8 4), make c_int8 4)
   \<and> post_decrement c_int8 (make c_int8 5) = (Returned (make c_int8 5), make c_int8 4)"
proof -
  have i: "instance_of c_int8 (make c_int8 127)" "instance_of c_int8 (make c_int8 (- 128))"
    "instance_of c_int8 (make c_int8 5)"
    by (simp_all add: instance_of_make in_range_int8)
  have u: "\<And>v w. (make c_int8 v)\<lparr>value_m := w\<rparr> = make c_int8 w" by (simp add: make_def)
  note s = value_m_make max_m_make min_m_make tmin_int8 tmax_int8 u
  show ?thesis
    using increment_decrement [OF wf_int8 i(1)] increment_decrement [OF wf_int8 i(2)]
      increment_decrement [OF wf_int8 i(3)] wf_int8 i
    by (simp add: s)
qed

section \<open>The state invariant\<close>

lemma instance_of_update:
  "instance_of T a \<Longrightarrow> in_range T v \<Longrightarrow> instance_of T (a\<lparr>value_m := v\<rparr>)"
  by (simp add: instance_of_def)

lemma add_assign_instance:
  assumes T: "wf_ctype T" and a: "instance_of T a" and res: "add_assign T a b = (Returned r, s)"
  shows "instance_of T s"
proof -
  from res obtain t u where "SafeAdd T t b = Returned u" and s: "s = a\<lparr>value_m := value_m u\<rparr>"
    unfolding add_assign_def by (auto dest!: on_result_Returned simp: Let_def)
  then have "instance_of T u" using T by (blast intro: SafeAdd_instance)
  then have "in_range T (value_m u)" by (simp add: instance_of_def)
  with a s show ?thesis by (simp add: instance_of_update)
qed

lemma add_assign_raw_instance:
  assumes T: "wf_ctype T" and a: "instance_of T a" and res: "add_assign_raw T a x = (Returned r, s)"
  shows "instance_of T s"
proof -
  from res obtain t t' u where "SafeAdd T t t' = Returned u" and s: "s = a\<lparr>value_m := value_m u\<rparr>"
    unfolding add_assign_raw_def by (auto dest!: on_result_Returned simp: Let_def)
  then have "instance_of T u" using T by (blast intro: SafeAdd_instance)
  then have "in_range T (value_m u)" by (simp add: instance_of_def)
  with a s show ?thesis by (simp add: instance_of_update)
qed

lemma pre_increment_instance:
  assumes T: "wf_ctype T" and a: "instance_of T a" and res: "pre_increment T a = (Returned r, s)"
  shows "instance_of T s"
  using res pre_increment_exact [OF T a] a
  by (auto simp: instance_of_def in_range_def split: if_splits)

lemma post_increment_instance:
  assumes T: "wf_ctype T" and a: "instance_of T a" and res: "post_increment T a = (Returned r, s)"
  shows "instance_of T s \<and> instance_of T r"
  using res post_increment_exact [OF T a] a
  by (auto simp: instance_of_def in_range_def split: if_splits)

lemma pre_decrement_instance:
  assumes T: "wf_ctype T" and a: "instance_of T a" and res: "pre_decrement T a = (Returned r, s)"
  shows "instance_of T s"
  using res pre_decrement_exact [OF T a] a
  by (auto simp: instance_of_def in_range_def split: if_splits)

lemma post_decrement_instance:
  assumes T: "wf_ctype T" and a: "instance_of T a" and res: "post_decrement T a = (Returned r, s)"
  shows "instance_of T s \<and> instance_of T r"
  using res post_decrement_exact [OF T a] a
  by (auto simp: instance_of_def in_range_def split: if_splits)

lemma live_instance_of:
  assumes T: "wf_ctype T" and "live T s"
  shows "instance_of T s"
  using assms(2)
proof (induction rule: live.induct)
  case (live_default s)
  then show ?case
    by (auto simp: SnugInt_default_def Let_def instance_of_def in_range_zero split: if_splits)
next
  case (live_copy a s)
  then show ?case by (auto simp: SnugInt_copy_def Let_def instance_of_def split: if_splits)
next
  case (live_from T' item s)
  then show ?case using T by (blast intro: SnugInt_from_instance)
next
  case (live_assign a b)
  then show ?case by (simp add: assign_def instance_of_def)
next
  case (live_assign_raw a x)
  then show ?case by (simp add: assign_raw_def instance_of_def)
next
  case (live_add_assign a b r s)
  then show ?case using T by (blast intro: add_assign_instance)
next
  case (live_add_assign_raw a x r s)
  then show ?case using T by (blast intro: add_assign_raw_instance)
next
  case (live_SafeAdd a b s)
  then show ?case using T by (blast intro: SafeAdd_instance)
next
  case (live_SafeSub a b s)
  then show ?case using T by (blast intro: SafeSub_instance)
next
  case (live_SafeMult a b s)
  then show ?case using T by (blast intro: SafeMult_instance)
next
  case (live_SafeDiv a b s)
  then show ?case using T by (blast intro: SafeDiv_instance)
next
  case (live_pre_increment a r s)
  then show ?case using T by (blast intro: pre_increment_instance)
next
  case (live_post_increment a r s)
  then show ?case using T by (blast dest: post_increment_instance)
next
  case (live_post_increment_result a r s)
  then show ?case using T by (blast dest: post_increment_instance)
next
  case (live_pre_decrement a r s)
  then show ?case using T by (blast intro: pre_decrement_instance)
next
  case (live_post_decrement a r s)
  then show ?case using T by (blast dest: post_decrement_instance)
next
  case (live_post_decrement_result a r s)
  then show ?case using T by (blast dest: post_decrement_instance)
qed

text \<open>
  C9. Every live instance, whichever successful construction, assignment (the unchecked
  assignment of a raw \<open>Type\<close> value included), checked operation, increment or decrement
  produced it, satisfies \<open>min \<le> value \<le> max\<close> and \<open>min < max\<close>.
\<close>

theorem live_invariant:
  assumes "wf_ctype T" and "live T s"
  shows "min_m s \<le> value_m s \<and> value_m s \<le> max_m s \<and> min_m s < max_m s"
  using live_instance_of [OF assms] tmin_less_tmax [OF assms(1)]
  by (simp add: instance_of_def in_range_def)

theorem live_invariant_witness:
  "wf_ctype c_int8 \<and> live c_int8 (assign_raw (make c_int8 120) (- 128))
   \<and> min_m (assign_raw (make c_int8 120) (- 128)) \<le> value_m (assign_raw (make c_int8 120) (- 128))
   \<and> value_m (assign_raw (make c_int8 120) (- 128)) \<le> max_m (assign_raw (make c_int8 120) (- 128))
   \<and> min_m (assign_raw (make c_int8 120) (- 128)) < max_m (assign_raw (make c_int8 120) (- 128))"
proof -
  have c: "wf_ctype c_int" by (rule wf_c_int)
  have r: "in_range c_int 100" "in_range c_int 20"
    by (simp_all add: in_range_def tmin_def tmax_def c_int_def int_bits_def)
  have f: "SnugInt_from c_int8 c_int 100 = Returned (make c_int8 100)"
    "SnugInt_from c_int8 c_int 20 = Returned (make c_int8 20)"
    by code_simp+
  have a: "SafeAdd c_int8 (make c_int8 100) (make c_int8 20) = Returned (make c_int8 120)"
    by code_simp
  have "live c_int8 (make c_int8 120)"
    by (rule live_SafeAdd [OF live_from [OF c r(1) f(1)] live_from [OF c r(2) f(2)] a])
  then have l: "live c_int8 (assign_raw (make c_int8 120) (- 128))"
    by (rule live_assign_raw) (simp add: in_range_int8)
  show ?thesis using live_invariant [OF wf_int8 l] wf_int8 l by simp
qed

end
